theory Spec2Isabelle
  imports Complex_Main
begin

section \<open>The node model (class DatabaseNode)\<close>

text \<open>
  A node keeps its role, its health flag, its connection handle and the lag it stored last.
  The connection target (host, port, credentials, database) is only handed to the driver and
  is left out. The driver is external: every call into it is modelled by the outcome it
  produced, passed as an argument. An outcome \<open>False\<close> or \<open>...Error\<close> stands for any exception
  raised inside the corresponding \<open>try\<close> block.
\<close>

datatype conn_handle = Handle

record database_node =
  name :: string
  is_primary :: bool
  is_healthy :: bool
  connection :: "conn_handle option"
  replication_lag :: real

text \<open>\<open>__init__\<close>: a fresh node is a healthy standby without connection and with lag 0.\<close>

definition new_node :: "string \<Rightarrow> database_node" where
  "new_node nm =
     \<lparr>name = nm, is_primary = False, is_healthy = True, connection = None, replication_lag = 0\<rparr>"

text \<open>
  \<open>connect\<close>: on success the handle is stored and \<open>True\<close> returned (the health flag is not
  touched); on failure the node is marked unhealthy and \<open>False\<close> returned.
\<close>

definition connect :: "database_node \<Rightarrow> bool \<Rightarrow> database_node \<times> bool" where
  "connect self connect_ok =
     (if connect_ok then (self\<lparr>connection := Some Handle\<rparr>, True)
      else (self\<lparr>is_healthy := False\<rparr>, False))"

text \<open>
  \<open>health_check\<close>: \<open>conn_closed\<close> is the handle's \<open>closed\<close> attribute as the driver shows it at the
  time of the call, \<open>connect_ok\<close> the outcome of a reconnection and \<open>probe_ok\<close> the outcome of
  the \<open>SELECT 1\<close> probe.
\<close>

definition health_check :: "database_node \<Rightarrow> bool \<Rightarrow> bool \<Rightarrow> bool \<Rightarrow> database_node \<times> bool" where
  "health_check self conn_closed connect_ok probe_ok =
     (if connection self = None \<or> conn_closed then connect self connect_ok
      else if probe_ok then (self\<lparr>is_healthy := True\<rparr>, True)
      else (self\<lparr>is_healthy := False\<rparr>, False))"

text \<open>
  \<open>get_replication_lag\<close>: the query yields an error or a row whose single column may be
  \<open>NULL\<close>. Without a handle, \<open>self.connection.cursor()\<close> raises, which the \<open>except\<close> catches.
\<close>

datatype lag_query = LagQueryError | LagRow "real option"

definition get_replication_lag :: "database_node \<Rightarrow> lag_query \<Rightarrow> database_node \<times> real" where
  "get_replication_lag self q =
     (if is_primary self then (self, 0)
      else (case connection self of
              None \<Rightarrow> (self, 0)
            | Some h \<Rightarrow>
                (case q of
                   LagQueryError \<Rightarrow> (self, 0)
                 | LagRow lag \<Rightarrow>
                     (let self' = self\<lparr>replication_lag :=
                                     (case lag of None \<Rightarrow> 0
                                      | Some v \<Rightarrow> if v \<noteq> 0 then v else 0)\<rparr>
                      in (self', replication_lag self')))))"

text \<open>The lag query of a node fails when the \<open>try\<close> block raises: no handle, or a driver error.\<close>

definition lag_query_fails :: "database_node \<Rightarrow> lag_query \<Rightarrow> bool" where
  "lag_query_fails self q = (connection self = None \<or> q = LagQueryError)"

text \<open>\<open>promote_to_primary\<close>: \<open>promote_ok\<close> is the outcome of \<open>SELECT pg_promote()\<close>.\<close>

definition promote_to_primary :: "database_node \<Rightarrow> bool \<Rightarrow> database_node \<times> bool" where
  "promote_to_primary self promote_ok =
     (case connection self of
        None \<Rightarrow> (self, False)
      | Some h \<Rightarrow> if promote_ok then (self\<lparr>is_primary := True\<rparr>, True) else (self, False))"

text \<open>
  \<open>get_stats\<close>: the statistics query yields an error, no row, or a row of five counters.
  The result is a Python dict, here an association list in the order of the dict literal;
  the empty dict is the empty list.
\<close>

datatype pyval = PyInt int | PyFloat real

datatype stats_query = StatsQueryError | StatsRow "(int \<times> int \<times> int \<times> int \<times> int) option"

definition get_stats :: "database_node \<Rightarrow> stats_query \<Rightarrow> (string \<times> pyval) list" where
  "get_stats self q =
     (case connection self of
        None \<Rightarrow> []
      | Some h \<Rightarrow>
          (case q of
             StatsQueryError \<Rightarrow> []
           | StatsRow None \<Rightarrow> []
           | StatsRow (Some (r0, r1, r2, r3, r4)) \<Rightarrow>
               [(''active_connections'', PyInt r0),
                (''transactions_committed'', PyInt r1),
                (''transactions_rolled_back'', PyInt r2),
                (''blocks_read'', PyInt r3),
                (''blocks_hit'', PyInt r4),
                (''cache_hit_ratio'',
                   if r3 + r4 > 0 then PyFloat (real_of_int r4 / real_of_int (r3 + r4) * 100)
                   else PyInt 0)]))"

text \<open>The statistics retrieval of a node fails when \<open>get_stats\<close> goes through its \<open>except\<close>.\<close>

definition stats_query_fails :: "database_node \<Rightarrow> stats_query \<Rightarrow> bool" where
  "stats_query_fails self q =
     (connection self = None \<or> q = StatsQueryError \<or> q = StatsRow None)"


section \<open>The orchestrator (class DisasterRecoveryOrchestrator)\<close>

text \<open>
  A metric is the dict built by \<open>log_metrics\<close>: five fixed keys and the keys of the stats
  dict merged in by \<open>**stats\<close>, kept together in \<open>m_stats\<close>.
\<close>

record metric =
  m_timestamp :: string
  m_node :: string
  m_is_primary :: bool
  m_is_healthy :: bool
  m_replication_lag :: real
  m_stats :: "(string \<times> pyval) list"

text \<open>
  The orchestrator owns the node objects in \<open>nodes\<close>; \<open>primary_node\<close> is a reference to one
  of them, here its position in \<open>nodes\<close>, or \<open>None\<close>.
\<close>

record orchestrator =
  nodes :: "database_node list"
  primary_node :: "nat option"
  monitoring :: bool
  failover_in_progress :: bool
  metrics :: "metric list"

definition new_orchestrator :: orchestrator where
  "new_orchestrator =
     \<lparr>nodes = [], primary_node = None, monitoring = True, failover_in_progress = False,
      metrics = []\<rparr>"

definition add_node :: "orchestrator \<Rightarrow> database_node \<Rightarrow> orchestrator" where
  "add_node s node =
     (let s' = s\<lparr>nodes := nodes s @ [node]\<rparr>
      in if is_primary node then s'\<lparr>primary_node := Some (length (nodes s))\<rparr> else s')"

subsection \<open>log\_metrics\<close>

text \<open>The slice \<open>xs[-k:]\<close> for positive \<open>k\<close>: the last \<open>k\<close> elements, or all of a shorter list.\<close>

definition keep_last :: "nat \<Rightarrow> 'a list \<Rightarrow> 'a list" where
  "keep_last k xs = drop (length xs - k) xs"

text \<open>\<open>self.metrics.append(metric)\<close> followed by the trimming to the last 100 entries.\<close>

definition append_metric :: "metric list \<Rightarrow> metric \<Rightarrow> metric list" where
  "append_metric ms m =
     (let ms' = ms @ [m] in if length ms' > 100 then keep_last 100 ms' else ms')"

definition make_metric :: "string \<Rightarrow> database_node \<Rightarrow> (string \<times> pyval) list \<Rightarrow> metric" where
  "make_metric ts node stats =
     \<lparr>m_timestamp = ts, m_node = name node, m_is_primary = is_primary node,
      m_is_healthy = is_healthy node, m_replication_lag = replication_lag node,
      m_stats = stats\<rparr>"

text \<open>
  The loop over \<open>self.nodes\<close>; \<open>i\<close> is the position of the node at hand and \<open>stats_of i\<close> the
  outcome of the statistics query sent to it.
\<close>

fun log_metrics_loop ::
  "string \<Rightarrow> (nat \<Rightarrow> stats_query) \<Rightarrow> nat \<Rightarrow> database_node list \<Rightarrow> metric list \<Rightarrow> metric list"
where
  "log_metrics_loop ts stats_of i [] ms = ms"
| "log_metrics_loop ts stats_of i (node # rest) ms =
     log_metrics_loop ts stats_of (Suc i) rest
       (if is_healthy node
        then append_metric ms (make_metric ts node (get_stats node (stats_of i)))
        else ms)"

definition log_metrics :: "orchestrator \<Rightarrow> string \<Rightarrow> (nat \<Rightarrow> stats_query) \<Rightarrow> orchestrator" where
  "log_metrics s ts stats_of = s\<lparr>metrics := log_metrics_loop ts stats_of 0 (nodes s) (metrics s)\<rparr>"

subsection \<open>get\_cluster\_status\<close>

record node_status =
  ns_name :: string
  ns_is_primary :: bool
  ns_is_healthy :: bool
  ns_replication_lag :: real

record cluster_status =
  cs_timestamp :: string
  cs_primary :: "string option"
  cs_total_nodes :: nat
  cs_healthy_nodes :: nat
  cs_nodes :: "node_status list"

definition node_status_of :: "database_node \<Rightarrow> node_status" where
  "node_status_of n =
     \<lparr>ns_name = name n, ns_is_primary = is_primary n, ns_is_healthy = is_healthy n,
      ns_replication_lag = replication_lag n\<rparr>"

definition get_cluster_status :: "orchestrator \<Rightarrow> string \<Rightarrow> cluster_status" where
  "get_cluster_status s ts =
     \<lparr>cs_timestamp = ts,
      cs_primary = (case primary_node s of None \<Rightarrow> None | Some p \<Rightarrow> Some (name (nodes s ! p))),
      cs_total_nodes = length (nodes s),
      cs_healthy_nodes = length (filter is_healthy (nodes s)),
      cs_nodes = map node_status_of (nodes s)\<rparr>"

subsection \<open>trigger\_failover\<close>

text \<open>
  The healthy standbys in registry order, as positions in \<open>nodes\<close>, and the same list after
  \<open>standbys.sort(key=lambda x: x.replication_lag)\<close>. Python's sort is stable, as is
  \<open>sort_key\<close>.
\<close>

definition standbys :: "orchestrator \<Rightarrow> nat list" where
  "standbys s =
     filter (\<lambda>i. \<not> is_primary (nodes s ! i) \<and> is_healthy (nodes s ! i)) [0..<length (nodes s)]"

definition sorted_standbys :: "orchestrator \<Rightarrow> nat list" where
  "sorted_standbys s = sort_key (\<lambda>i. replication_lag (nodes s ! i)) (standbys s)"

definition max_wait :: nat where
  "max_wait = 30"

text \<open>
  The catch-up loop on the candidate \<open>n\<close>. \<open>probes k\<close> is the outcome of the lag query of the
  \<open>k\<close>-th iteration still to come. The result lists, for each iteration run, the candidate and
  the value of \<open>waited\<close> at its end.
\<close>

function catchup_loop ::
  "database_node \<Rightarrow> nat \<Rightarrow> (nat \<Rightarrow> lag_query) \<Rightarrow> (database_node \<times> nat) list"
where
  "catchup_loop n waited probes =
     (if replication_lag n > 1 \<and> waited < max_wait
      then (let n' = fst (get_replication_lag n (probes 0)); waited' = waited + 2
            in (n', waited') # catchup_loop n' waited' (\<lambda>k. probes (Suc k)))
      else [])"
  by pat_completeness auto
termination
  by (relation "measure (\<lambda>(n, waited, probes). max_wait - waited)") auto

declare catchup_loop.simps [simp del]

text \<open>
  The run of \<open>trigger_failover\<close> is recorded as the list of its steps, each with the state
  of the orchestrator right after it.
\<close>

datatype failover_step =
    AlreadyInProgress
  | Initiated
  | NoHealthyStandby
  | Selected nat real
  | Remeasured nat
  | Promoted nat
  | PromoteFailed nat
  | PrimaryReassigned nat
  | OldPrimaryDemoted nat
  | FailoverComplete nat nat real
  | FailoverFailed
  | Cleared

text \<open>
  From the call of \<open>promote_to_primary\<close> to the last log line of either branch; \<open>c\<close> is the
  candidate \<open>new_primary\<close>. \<open>FailoverComplete\<close> carries the logged RTO and RPO.
\<close>

definition promote_steps ::
  "orchestrator \<Rightarrow> nat \<Rightarrow> nat \<Rightarrow> bool \<Rightarrow> (failover_step \<times> orchestrator) list"
where
  "promote_steps s c waited promote_ok =
     (let (cand, ok) = promote_to_primary (nodes s ! c) promote_ok;
          s1 = s\<lparr>nodes := (nodes s)[c := cand]\<rparr>
      in if ok then
           (let old_primary = primary_node s1;
                s2 = s1\<lparr>primary_node := Some c\<rparr>;
                s3 = (case old_primary of
                        None \<Rightarrow> s2
                      | Some p \<Rightarrow> s2\<lparr>nodes := (nodes s2)[p := (nodes s2 ! p)\<lparr>is_primary := False\<rparr>]\<rparr>)
            in [(Promoted c, s1), (PrimaryReassigned c, s2)] @
               (case old_primary of None \<Rightarrow> [] | Some p \<Rightarrow> [(OldPrimaryDemoted p, s3)]) @
               [(FailoverComplete c waited (replication_lag (nodes s3 ! c)), s3)])
         else [(PromoteFailed c, s1), (FailoverFailed, s1)])"

definition trigger_failover_steps ::
  "orchestrator \<Rightarrow> (nat \<Rightarrow> lag_query) \<Rightarrow> bool \<Rightarrow> (failover_step \<times> orchestrator) list"
where
  "trigger_failover_steps s probes promote_ok =
     (if failover_in_progress s then [(AlreadyInProgress, s)]
      else
        (let s1 = s\<lparr>failover_in_progress := True\<rparr>
         in if standbys s1 = []
            then [(Initiated, s1), (NoHealthyStandby, s1\<lparr>failover_in_progress := False\<rparr>)]
            else
              (let c = hd (sorted_standbys s1);
                   iters = catchup_loop (nodes s1 ! c) 0 probes;
                   (cand, waited) = last ((nodes s1 ! c, 0) # iters);
                   s2 = s1\<lparr>nodes := (nodes s1)[c := cand]\<rparr>;
                   psteps = promote_steps s2 c waited promote_ok;
                   s3 = snd (last psteps)
               in [(Initiated, s1), (Selected c (replication_lag (nodes s1 ! c)), s1)] @
                  map (\<lambda>(n, w). (Remeasured w, s1\<lparr>nodes := (nodes s1)[c := n]\<rparr>)) iters @
                  psteps @
                  [(Cleared, s3\<lparr>failover_in_progress := False\<rparr>)])))"

text \<open>The state in which \<open>trigger_failover\<close> returns.\<close>

definition trigger_failover :: "orchestrator \<Rightarrow> (nat \<Rightarrow> lag_query) \<Rightarrow> bool \<Rightarrow> orchestrator" where
  "trigger_failover s probes promote_ok = snd (last (trigger_failover_steps s probes promote_ok))"

definition count_primaries :: "orchestrator \<Rightarrow> nat" where
  "count_primaries s = length (filter is_primary (nodes s))"


subsection \<open>Auxiliary notions for the statements\<close>

text \<open>
  The snapshots one run of \<open>log_metrics\<close> builds: one for each healthy node, in registry
  order, starting at position \<open>i\<close>.
\<close>

definition snapshot_of :: "string \<Rightarrow> (nat \<Rightarrow> stats_query) \<Rightarrow> nat \<times> database_node \<Rightarrow> metric" where
  "snapshot_of ts stats_of p = make_metric ts (snd p) (get_stats (snd p) (stats_of (fst p)))"

definition tick_snapshots ::
  "string \<Rightarrow> (nat \<Rightarrow> stats_query) \<Rightarrow> nat \<Rightarrow> database_node list \<Rightarrow> metric list"
where
  "tick_snapshots ts stats_of i ns =
     map (snapshot_of ts stats_of) (filter (\<lambda>p. is_healthy (snd p)) (enumerate i ns))"

text \<open>A node is eligible for promotion when it is a healthy standby of the registry.\<close>

definition eligible :: "orchestrator \<Rightarrow> nat \<Rightarrow> bool" where
  "eligible s i = (i < length (nodes s) \<and> \<not> is_primary (nodes s ! i) \<and> is_healthy (nodes s ! i))"

text \<open>
  A state is settled when every node whose role is primary is the one \<open>primary_node\<close>
  refers to; there is then at most one primary.
\<close>

definition settled :: "orchestrator \<Rightarrow> bool" where
  "settled s =
     list_all (\<lambda>i. is_primary (nodes s ! i) \<longrightarrow> primary_node s = Some i) [0..<length (nodes s)]"

text \<open>
  The steps between the candidate's promotion and the downgrade of the old primary.
\<close>

fun promotion_window :: "failover_step \<Rightarrow> bool" where
  "promotion_window (Promoted c) = True"
| "promotion_window (PrimaryReassigned c) = True"
| "promotion_window l = False"

text \<open>
  A lag query leaves a stored lag above 1 s above 1 s when it fails (the stored value is
  kept) or yields a value above 1 s.
\<close>

fun stays_above :: "lag_query \<Rightarrow> bool" where
  "stays_above LagQueryError = True"
| "stays_above (LagRow None) = False"
| "stays_above (LagRow (Some v)) = (v > 1)"

text \<open>The iterations of the catch-up loop in a run, and whether the run called
  \<open>promote_to_primary\<close> on node \<open>c\<close>.\<close>

fun is_remeasured :: "failover_step \<Rightarrow> bool" where
  "is_remeasured (Remeasured w) = True"
| "is_remeasured l = False"

definition iterations :: "(failover_step \<times> orchestrator) list \<Rightarrow> nat" where
  "iterations steps = length (filter is_remeasured (map fst steps))"

definition promote_invoked_on :: "nat \<Rightarrow> (failover_step \<times> orchestrator) list \<Rightarrow> bool" where
  "promote_invoked_on c steps =
     (Promoted c \<in> set (map fst steps) \<or> PromoteFailed c \<in> set (map fst steps))"

subsection \<open>Example states\<close>

text \<open>
  A cluster of three connected nodes: the primary \<open>P\<close>, found unhealthy, and the healthy
  standbys \<open>S1\<close> (lag 0.3 s) and \<open>S2\<close> (lag 1.8 s).
\<close>

definition ex_primary :: database_node where
  "ex_primary =
     (new_node ''P'')\<lparr>is_primary := True, is_healthy := False, connection := Some Handle\<rparr>"

definition ex_standby1 :: database_node where
  "ex_standby1 = (new_node ''S1'')\<lparr>connection := Some Handle, replication_lag := 3 / 10\<rparr>"

definition ex_standby2 :: database_node where
  "ex_standby2 = (new_node ''S2'')\<lparr>connection := Some Handle, replication_lag := 18 / 10\<rparr>"

definition ex_cluster :: orchestrator where
  "ex_cluster =
     add_node (add_node (add_node new_orchestrator ex_primary) ex_standby1) ex_standby2"

text \<open>A driver whose lag queries all fail, and one whose statistics queries all fail.\<close>

definition no_probe :: "nat \<Rightarrow> lag_query" where
  "no_probe k = LagQueryError"

definition no_stats :: "nat \<Rightarrow> stats_query" where
  "no_stats i = StatsQueryError"

text \<open>A connected standby with a stored lag of 0.4 s.\<close>

definition stale_standby :: database_node where
  "stale_standby = (new_node ''S1'')\<lparr>connection := Some Handle, replication_lag := 4 / 10\<rparr>"

text \<open>A fresh node after a failed \<open>connect\<close>: unhealthy and without handle.\<close>

definition unreachable_node :: database_node where
  "unreachable_node = fst (connect (new_node ''S1'') False)"

text \<open>A full history of 100 numbered entries.\<close>

definition numbered_metric :: "nat \<Rightarrow> metric" where
  "numbered_metric k =
     \<lparr>m_timestamp = ''t'', m_node = ''S1'', m_is_primary = False, m_is_healthy = True,
      m_replication_lag = real k, m_stats = []\<rparr>"

definition full_history :: "metric list" where
  "full_history = map numbered_metric [0..<100]"

text \<open>
  The selection example: standbys \<open>A\<close> (lag 2.0 s, healthy), \<open>B\<close> (lag 0.5 s, healthy) and
  \<open>C\<close> (lag 0.1 s, unhealthy) behind the unhealthy primary.
\<close>

definition selection_cluster :: orchestrator where
  "selection_cluster =
     add_node (add_node (add_node (add_node new_orchestrator ex_primary)
       ((new_node ''A'')\<lparr>connection := Some Handle, replication_lag := 2\<rparr>))
       ((new_node ''B'')\<lparr>connection := Some Handle, replication_lag := 1 / 2\<rparr>))
       ((new_node ''C'')\<lparr>connection := Some Handle, is_healthy := False,
                         replication_lag := 1 / 10\<rparr>)"

text \<open>
  The timeout example: one healthy standby whose lag is 5 s and stays there at every
  re-measurement.
\<close>

definition lagging_standby :: database_node where
  "lagging_standby = (new_node ''S1'')\<lparr>connection := Some Handle, replication_lag := 5\<rparr>"

definition lagging_cluster :: orchestrator where
  "lagging_cluster = add_node (add_node new_orchestrator ex_primary) lagging_standby"

definition stuck_probe :: "nat \<Rightarrow> lag_query" where
  "stuck_probe k = LagRow (Some 5)"


section \<open>Evaluating the example\<close>

lemma ex_cluster_eq:
  "ex_cluster =
     \<lparr>nodes = [ex_primary, ex_standby1, ex_standby2], primary_node = Some 0, monitoring = True,
      failover_in_progress = False, metrics = []\<rparr>"
  by (simp add: ex_cluster_def add_node_def new_orchestrator_def Let_def ex_primary_def
      ex_standby1_def ex_standby2_def new_node_def)

lemma ex_standbys: "standbys (ex_cluster\<lparr>failover_in_progress := True\<rparr>) = [1, 2]"
  by (simp add: standbys_def ex_cluster_eq ex_primary_def ex_standby1_def ex_standby2_def
      new_node_def upt_rec)

lemma ex_nodes:
  "nodes (ex_cluster\<lparr>failover_in_progress := True\<rparr>) = [ex_primary, ex_standby1, ex_standby2]"
  by (simp add: ex_cluster_eq)

lemma ex_candidate: "hd (sorted_standbys (ex_cluster\<lparr>failover_in_progress := True\<rparr>)) = 1"
  by (simp add: sorted_standbys_def ex_standbys ex_nodes ex_standby1_def ex_standby2_def
      new_node_def)

lemma catchup_loop_caught_up: "\<not> replication_lag n > 1 \<Longrightarrow> catchup_loop n w p = []"
  by (subst catchup_loop.simps) simp

lemma ex_steps_labels:
  "map fst (trigger_failover_steps ex_cluster no_probe True) =
     [Initiated, Selected 1 (3 / 10), Promoted 1, PrimaryReassigned 1, OldPrimaryDemoted 0,
      FailoverComplete 1 0 (3 / 10), Cleared]"
  apply (simp add: trigger_failover_steps_def ex_standbys ex_candidate Let_def)
  apply (simp add: ex_cluster_eq catchup_loop_caught_up ex_standby1_def new_node_def)
  apply (simp add: Let_def promote_steps_def promote_to_primary_def
      ex_primary_def ex_standby2_def new_node_def)
  done

lemma ex_settled: "settled ex_cluster"
  by (simp add: settled_def ex_cluster_eq ex_primary_def ex_standby1_def ex_standby2_def
      new_node_def upt_rec)

lemma selection_cluster_eq:
  "selection_cluster =
     \<lparr>nodes = [ex_primary,
               (new_node ''A'')\<lparr>connection := Some Handle, replication_lag := 2\<rparr>,
               (new_node ''B'')\<lparr>connection := Some Handle, replication_lag := 1 / 2\<rparr>,
               (new_node ''C'')\<lparr>connection := Some Handle, is_healthy := False,
                                replication_lag := 1 / 10\<rparr>],
      primary_node = Some 0, monitoring = True, failover_in_progress = False, metrics = []\<rparr>"
  by (simp add: selection_cluster_def add_node_def new_orchestrator_def Let_def ex_primary_def
      new_node_def)

lemma selection_example: "hd (sorted_standbys selection_cluster) = 2"
proof -
  have "standbys selection_cluster = [1, 2]"
    by (simp add: standbys_def selection_cluster_eq ex_primary_def new_node_def upt_rec)
  then show ?thesis
    by (simp add: sorted_standbys_def) (simp add: selection_cluster_eq new_node_def)
qed

lemma lagging_cluster_eq:
  "lagging_cluster =
     \<lparr>nodes = [ex_primary, lagging_standby], primary_node = Some 0, monitoring = True,
      failover_in_progress = False, metrics = []\<rparr>"
  by (simp add: lagging_cluster_def add_node_def new_orchestrator_def Let_def ex_primary_def
      lagging_standby_def new_node_def)

lemma lagging_standbys: "standbys lagging_cluster = [1]"
  by (simp add: standbys_def lagging_cluster_eq ex_primary_def lagging_standby_def new_node_def
      upt_rec)

lemma ex_tick_snapshots:
  "tick_snapshots ts no_stats 0 (nodes ex_cluster) =
     [make_metric ts ex_standby1 [], make_metric ts ex_standby2 []]"
  by (simp add: tick_snapshots_def snapshot_of_def ex_cluster_eq get_stats_def no_stats_def
      ex_primary_def ex_standby1_def ex_standby2_def new_node_def)


section \<open>Node operations\<close>

lemma primary_lag_measured_zero: "is_primary n \<Longrightarrow> get_replication_lag n q = (n, 0)"
  by (simp add: get_replication_lag_def)

text \<open>
  C1, at the state the example failover ends in: the promoted node \<open>S1\<close> is the primary, and
  the status report gives its lag as 0.3 s, the value stored while it was a standby, where
  \<open>get_replication_lag\<close> returns 0 for it.
\<close>

theorem promoted_primary_reports_stale_lag:
  "cs_primary (get_cluster_status (trigger_failover ex_cluster no_probe True) ''t'') = Some ''S1''
   \<and> cs_nodes (get_cluster_status (trigger_failover ex_cluster no_probe True) ''t'') ! 1 =
       \<lparr>ns_name = ''S1'', ns_is_primary = True, ns_is_healthy = True,
        ns_replication_lag = 3 / 10\<rparr>
   \<and> snd (get_replication_lag (nodes (trigger_failover ex_cluster no_probe True) ! 1) q) = 0"
  apply (simp add: trigger_failover_def trigger_failover_steps_def ex_standbys ex_candidate Let_def)
  apply (simp add: ex_cluster_eq catchup_loop_caught_up ex_standby1_def new_node_def)
  apply (simp add: Let_def promote_steps_def promote_to_primary_def get_cluster_status_def
      node_status_of_def get_replication_lag_def ex_primary_def ex_standby2_def new_node_def)
  done

text \<open>
  C4: a failed lag query on a standby leaves the stored lag as it was.
\<close>

theorem failed_lag_probe_retains_lag:
  "\<not> is_primary n \<Longrightarrow> lag_query_fails n q \<Longrightarrow>
   replication_lag (fst (get_replication_lag n q)) = replication_lag n"
  by (auto simp: get_replication_lag_def lag_query_fails_def split: option.splits)

theorem failed_lag_probe_retains_lag_witness:
  "replication_lag (fst (get_replication_lag stale_standby LagQueryError)) = 4 / 10"
  using failed_lag_probe_retains_lag [of stale_standby LagQueryError]
  by (simp add: stale_standby_def new_node_def lag_query_fails_def)

text \<open>
  C10: a failed lag query on a standby makes \<open>get_replication_lag\<close> return 0 while the node,
  and so its stored lag, is unchanged.
\<close>

theorem failed_lag_probe_returns_zero:
  "\<not> is_primary n \<Longrightarrow> lag_query_fails n q \<Longrightarrow>
   snd (get_replication_lag n q) = 0 \<and> fst (get_replication_lag n q) = n"
  by (auto simp: get_replication_lag_def lag_query_fails_def split: option.splits)

theorem failed_lag_probe_returns_zero_witness:
  "snd (get_replication_lag stale_standby LagQueryError) = 0 \<and>
   replication_lag (fst (get_replication_lag stale_standby LagQueryError)) = 4 / 10"
  using failed_lag_probe_returns_zero [of stale_standby LagQueryError]
  by (simp add: stale_standby_def new_node_def lag_query_fails_def)

text \<open>
  C8, on the reconnect path: for a node left unhealthy and without handle by a failed
  \<open>connect\<close>, a \<open>health_check\<close> that reconnects returns \<open>True\<close> and leaves the node unhealthy.
\<close>

theorem reconnect_returns_true_but_unhealthy:
  "snd (health_check unreachable_node False True True) = True \<and>
   is_healthy (fst (health_check unreachable_node False True True)) = False"
  by (simp add: unreachable_node_def health_check_def connect_def new_node_def)

lemma health_check_false_unhealthy:
  "\<not> snd (health_check n cl co pr) \<Longrightarrow> \<not> is_healthy (fst (health_check n cl co pr))"
  by (auto simp: health_check_def connect_def split: if_splits)

lemma health_check_probe_path:
  "connection n \<noteq> None \<Longrightarrow> \<not> cl \<Longrightarrow>
   is_healthy (fst (health_check n cl co pr)) = snd (health_check n cl co pr)"
  by (auto simp: health_check_def)

lemma health_check_reconnect_keeps_health:
  "connection n = None \<or> cl \<Longrightarrow> snd (health_check n cl co pr) \<Longrightarrow>
   is_healthy (fst (health_check n cl co pr)) = is_healthy n"
  by (auto simp: health_check_def connect_def split: if_splits)


section \<open>The metrics history\<close>

lemma append_metric_keep_last: "append_metric ms m = keep_last 100 (ms @ [m])"
  by (simp add: append_metric_def keep_last_def Let_def)

lemma keep_last_absorb: "keep_last k (keep_last k xs @ ys) = keep_last k (xs @ ys)"
proof -
  have "length xs + length ys - (length xs - k + k) + (length xs - k) = length xs + length ys - k"
    by arith
  then show ?thesis by (simp add: keep_last_def)
qed

lemma length_keep_last: "length (keep_last k xs) \<le> k"
  by (simp add: keep_last_def)

lemma log_metrics_loop_eq:
  "log_metrics_loop ts stats_of i ns ms =
     (if tick_snapshots ts stats_of i ns = [] then ms
      else keep_last 100 (ms @ tick_snapshots ts stats_of i ns))"
proof (induction ns arbitrary: i ms)
  case Nil
  then show ?case by (simp add: tick_snapshots_def)
next
  case (Cons n ns)
  show ?case
  proof (cases "is_healthy n")
    case False
    then show ?thesis using Cons.IH [of "Suc i" ms] by (simp add: tick_snapshots_def)
  next
    case True
    have unfold: "tick_snapshots ts stats_of i (n # ns) =
                make_metric ts n (get_stats n (stats_of i)) # tick_snapshots ts stats_of (Suc i) ns"
      using True by (simp add: tick_snapshots_def snapshot_of_def)
    show ?thesis
      using True Cons.IH [of "Suc i" "append_metric ms (make_metric ts n (get_stats n (stats_of i)))"]
      by (simp add: unfold append_metric_keep_last keep_last_absorb)
  qed
qed

text \<open>
  C3, as stated, fails: with every statistics query failing, one run of \<open>log_metrics\<close> on
  the example cluster appends a snapshot for each of the healthy nodes \<open>S1\<close> and \<open>S2\<close>,
  with no counters in it.
\<close>

theorem failed_stats_snapshot_appended:
  "metrics (log_metrics ex_cluster ''t'' no_stats) =
     [make_metric ''t'' ex_standby1 [], make_metric ''t'' ex_standby2 []] \<and>
   stats_query_fails ex_standby1 (no_stats 1) \<and> stats_query_fails ex_standby2 (no_stats 2)"
  by (simp add: log_metrics_def ex_cluster_eq append_metric_def Let_def keep_last_def
      get_stats_def no_stats_def stats_query_fails_def
      ex_primary_def ex_standby1_def ex_standby2_def new_node_def)

text \<open>
  C3, amended: one run of \<open>log_metrics\<close> appends one snapshot for each healthy node, in
  registry order, and keeps the last 100 entries; the snapshot of a node whose statistics
  retrieval fails carries the timestamp, name, role, health and lag and no counters.
\<close>

theorem log_metrics_records_every_healthy_node:
  "metrics (log_metrics s ts stats_of) =
     (if tick_snapshots ts stats_of 0 (nodes s) = [] then metrics s
      else keep_last 100 (metrics s @ tick_snapshots ts stats_of 0 (nodes s))) \<and>
   (stats_query_fails n q \<longrightarrow>
      make_metric ts n (get_stats n q) =
        \<lparr>m_timestamp = ts, m_node = name n, m_is_primary = is_primary n,
         m_is_healthy = is_healthy n, m_replication_lag = replication_lag n, m_stats = []\<rparr>)"
  by (auto simp: log_metrics_def log_metrics_loop_eq get_stats_def stats_query_fails_def
      make_metric_def split: option.splits)

theorem log_metrics_records_every_healthy_node_witness:
  "metrics (log_metrics ex_cluster ''t'' no_stats) =
     [make_metric ''t'' ex_standby1 [], make_metric ''t'' ex_standby2 []] \<and>
   make_metric ''t'' ex_standby1 (get_stats ex_standby1 (no_stats 1)) =
     \<lparr>m_timestamp = ''t'', m_node = ''S1'', m_is_primary = False, m_is_healthy = True,
      m_replication_lag = 3 / 10, m_stats = []\<rparr>"
  using log_metrics_records_every_healthy_node [of ex_cluster "''t''" no_stats ex_standby1 "no_stats 1"]
  by (simp add: ex_tick_snapshots keep_last_def stats_query_fails_def no_stats_def)
     (simp add: ex_cluster_eq ex_standby1_def new_node_def)

text \<open>
  C9: after an append the history has at most 100 entries; below the cap the entry is added
  at the end, at the cap the oldest entry is dropped and the others keep their order; a run
  of \<open>log_metrics\<close> keeps the bound.
\<close>

theorem metrics_history_bounded_fifo:
  "length (append_metric ms m) \<le> 100 \<and>
   (length ms < 100 \<longrightarrow> append_metric ms m = ms @ [m]) \<and>
   (length ms = 100 \<longrightarrow> append_metric ms m = tl ms @ [m]) \<and>
   (length (metrics s) \<le> 100 \<longrightarrow> length (metrics (log_metrics s ts stats_of)) \<le> 100)"
proof -
  have "length (append_metric ms m) \<le> 100"
    by (simp add: append_metric_keep_last length_keep_last)
  moreover have "length ms < 100 \<longrightarrow> append_metric ms m = ms @ [m]"
    by (simp add: append_metric_def Let_def)
  moreover have "length ms = 100 \<longrightarrow> append_metric ms m = tl ms @ [m]"
    by (cases ms) (auto simp: append_metric_def keep_last_def Let_def)
  moreover have "length (metrics s) \<le> 100 \<longrightarrow> length (metrics (log_metrics s ts stats_of)) \<le> 100"
    by (simp add: log_metrics_def log_metrics_loop_eq length_keep_last)
  ultimately show ?thesis by blast
qed

theorem metrics_history_bounded_fifo_witness:
  "append_metric [] (numbered_metric 0) = [numbered_metric 0] \<and>
   append_metric full_history (numbered_metric 100) = tl full_history @ [numbered_metric 100] \<and>
   length (metrics (log_metrics ex_cluster ''t'' no_stats)) \<le> 100"
  using metrics_history_bounded_fifo [of "[]" "numbered_metric 0" ex_cluster "''t''" no_stats]
        metrics_history_bounded_fifo [of full_history "numbered_metric 100" ex_cluster "''t''" no_stats]
  by (simp add: full_history_def ex_cluster_eq)


section \<open>The failover\<close>

text \<open>
  C7: entered with the flag down, \<open>trigger_failover\<close> returns with the flag down, whichever
  way it ends.
\<close>

theorem trigger_failover_clears_flag:
  "\<not> failover_in_progress s \<Longrightarrow>
   \<not> failover_in_progress (trigger_failover s probes promote_ok)"
  by (simp add: trigger_failover_def trigger_failover_steps_def Let_def split: prod.splits)

theorem trigger_failover_clears_flag_witness:
  "\<not> failover_in_progress (trigger_failover ex_cluster no_probe True)"
  using trigger_failover_clears_flag [of ex_cluster no_probe True]
  by (simp add: ex_cluster_eq)

subsection \<open>Candidate selection\<close>

lemma set_standbys: "set (standbys s) = {i. eligible s i}"
  by (auto simp: standbys_def eligible_def)

lemma sorted_standbys_idx: "sorted (standbys s)"
  by (simp add: standbys_def sorted_filter [where f = "\<lambda>x. x", simplified])

lemma standbys_flag: "standbys (s\<lparr>failover_in_progress := b\<rparr>) = standbys s"
  by (simp add: standbys_def)

lemma sorted_standbys_flag:
  "sorted_standbys (s\<lparr>failover_in_progress := b\<rparr>) = sorted_standbys s"
  by (simp add: sorted_standbys_def standbys_flag)

lemma hd_sort_key_least:
  fixes f :: "nat \<Rightarrow> real"
  assumes "xs \<noteq> []" and "sorted xs"
  shows "hd (sort_key f xs) \<in> set xs"
    and "\<forall>j \<in> set xs. f (hd (sort_key f xs)) \<le> f j"
    and "\<forall>j \<in> set xs. f j = f (hd (sort_key f xs)) \<longrightarrow> hd (sort_key f xs) \<le> j"
proof -
  obtain c rest where ys: "sort_key f xs = c # rest"
    using assms(1) by (cases "sort_key f xs") (auto dest: arg_cong [where f = length])
  have mem: "c \<in> set xs"
    using ys by (metis list.set_intros(1) set_sort)
  show "hd (sort_key f xs) \<in> set xs" using mem ys by simp
  have "sorted (map f (c # rest))"
    using sorted_sort_key [of f xs] ys by simp
  then have "\<forall>j \<in> set (c # rest). f c \<le> f j" by auto
  then show "\<forall>j \<in> set xs. f (hd (sort_key f xs)) \<le> f j"
    using ys by (metis list.sel(1) set_sort)
  have "filter (\<lambda>y. f y = f c) xs = filter (\<lambda>y. f y = f c) (c # rest)"
    using sort_key_stable [of f "f c" xs] ys by simp
  then have first: "filter (\<lambda>y. f y = f c) xs = c # filter (\<lambda>y. f y = f c) rest" by simp
  have "sorted (filter (\<lambda>y. f y = f c) xs)"
    using assms(2) by (simp add: sorted_filter [where f = "\<lambda>x. x", simplified])
  then have "\<forall>j \<in> set (filter (\<lambda>y. f y = f c) xs). c \<le> j"
    unfolding first by auto
  then show "\<forall>j \<in> set xs. f j = f (hd (sort_key f xs)) \<longrightarrow> hd (sort_key f xs) \<le> j"
    using ys by simp
qed

lemma hd_sorted_standbys_eligible:
  "standbys s \<noteq> [] \<Longrightarrow> eligible s (hd (sorted_standbys s))"
  using hd_sort_key_least(1) [OF _ sorted_standbys_idx, of s "\<lambda>i. replication_lag (nodes s ! i)"]
  by (simp add: sorted_standbys_def set_standbys)

lemma trigger_failover_steps_prefix:
  assumes "\<not> failover_in_progress s" and "standbys s \<noteq> []"
  shows "take 2 (map fst (trigger_failover_steps s probes promote_ok)) =
           [Initiated, Selected (hd (sorted_standbys s))
                                (replication_lag (nodes s ! hd (sorted_standbys s)))]"
  using assms
  by (simp add: trigger_failover_steps_def standbys_flag sorted_standbys_flag Let_def
      split: prod.splits)

text \<open>
  C5: when some node is eligible, the failover selects an eligible node \<open>c\<close> whose lag is
  least among the eligible nodes, and no eligible node of the same lag comes before \<open>c\<close> in
  the registry.
\<close>

theorem candidate_is_min_lag_earliest:
  assumes "\<not> failover_in_progress s" and "eligible s k"
  shows "\<exists>c. take 2 (map fst (trigger_failover_steps s probes promote_ok)) =
               [Initiated, Selected c (replication_lag (nodes s ! c))] \<and>
             eligible s c \<and>
             (\<forall>j. eligible s j \<longrightarrow>
                  replication_lag (nodes s ! c) \<le> replication_lag (nodes s ! j) \<and>
                  (replication_lag (nodes s ! j) = replication_lag (nodes s ! c) \<longrightarrow> c \<le> j))"
proof -
  let ?f = "\<lambda>i. replication_lag (nodes s ! i)"
  let ?c = "hd (sorted_standbys s)"
  have ne: "standbys s \<noteq> []"
    using assms(2) set_standbys [of s] by auto
  note least = hd_sort_key_least [OF ne sorted_standbys_idx, of ?f, folded sorted_standbys_def]
  have "eligible s ?c" using least(1) by (simp add: set_standbys)
  moreover have "\<forall>j. eligible s j \<longrightarrow> ?f ?c \<le> ?f j \<and> (?f j = ?f ?c \<longrightarrow> ?c \<le> j)"
    using least(2,3) by (simp add: set_standbys)
  ultimately show ?thesis
    using trigger_failover_steps_prefix [OF assms(1) ne] by blast
qed

theorem candidate_is_min_lag_earliest_witness:
  "\<exists>c. take 2 (map fst (trigger_failover_steps selection_cluster no_probe True)) =
          [Initiated, Selected c (replication_lag (nodes selection_cluster ! c))] \<and>
        eligible selection_cluster c \<and>
        (\<forall>j. eligible selection_cluster j \<longrightarrow>
             replication_lag (nodes selection_cluster ! c)
               \<le> replication_lag (nodes selection_cluster ! j) \<and>
             (replication_lag (nodes selection_cluster ! j)
                = replication_lag (nodes selection_cluster ! c) \<longrightarrow> c \<le> j))"
proof -
  have idle: "\<not> failover_in_progress selection_cluster"
    by (simp add: selection_cluster_eq)
  have some: "eligible selection_cluster 2"
    by (simp add: eligible_def selection_cluster_eq new_node_def)
  show ?thesis by (rule candidate_is_min_lag_earliest [OF idle some])
qed

subsection \<open>The catch-up loop\<close>

lemma remeasure_keeps_role:
  "is_primary (fst (get_replication_lag n q)) = is_primary n"
  by (simp add: get_replication_lag_def Let_def split: option.splits lag_query.splits)

lemma remeasure_stays_above:
  "replication_lag n > 1 \<Longrightarrow> stays_above q \<Longrightarrow>
   replication_lag (fst (get_replication_lag n q)) > 1"
  by (cases q rule: stays_above.cases)
     (simp_all add: get_replication_lag_def Let_def split: option.splits)

lemma catchup_loop_continue:
  "replication_lag n > 1 \<Longrightarrow> w < max_wait \<Longrightarrow>
   catchup_loop n w p =
     (fst (get_replication_lag n (p 0)), w + 2) #
     catchup_loop (fst (get_replication_lag n (p 0))) (w + 2) (\<lambda>k. p (Suc k))"
  by (subst catchup_loop.simps) (simp add: Let_def)

lemma catchup_loop_stop:
  "\<not> (replication_lag n > 1 \<and> w < max_wait) \<Longrightarrow> catchup_loop n w p = []"
  by (subst catchup_loop.simps) auto

lemma catchup_loop_length_le:
  "length (catchup_loop n w p) \<le> (max_wait + 1 - w) div 2"
proof (induction n w p rule: catchup_loop.induct)
  case (1 n w p)
  show ?case
  proof (cases "replication_lag n > 1 \<and> w < max_wait")
    case True
    have "length (catchup_loop (fst (get_replication_lag n (p 0))) (w + 2) (\<lambda>k. p (Suc k)))
            \<le> (max_wait + 1 - (w + 2)) div 2"
      using "1.IH" [OF True refl refl] .
    moreover have "w < max_wait" using True by simp
    ultimately show ?thesis
      using True by (simp add: catchup_loop_continue) arith
  next
    case False
    then show ?thesis by (simp add: catchup_loop_stop)
  qed
qed

lemma catchup_loop_waited:
  "snd (last ((n, w) # catchup_loop n w p)) = w + 2 * length (catchup_loop n w p)"
proof (induction n w p rule: catchup_loop.induct)
  case (1 n w p)
  show ?case
  proof (cases "replication_lag n > 1 \<and> w < max_wait")
    case True
    then show ?thesis
      using "1.IH" [OF True refl refl] by (simp add: catchup_loop_continue)
  next
    case False
    then show ?thesis by (simp add: catchup_loop_stop)
  qed
qed

lemma catchup_loop_role:
  "x \<in> set (catchup_loop n w p) \<Longrightarrow> is_primary (fst x) = is_primary n"
proof (induction n w p rule: catchup_loop.induct)
  case (1 n w p)
  show ?case
  proof (cases "replication_lag n > 1 \<and> w < max_wait")
    case True
    then show ?thesis
      using "1.IH" [OF True refl refl] "1.prems"
      by (auto simp: catchup_loop_continue remeasure_keeps_role)
  next
    case False
    then show ?thesis using "1.prems" by (simp add: catchup_loop_stop)
  qed
qed

lemma catchup_loop_never_caught_up:
  "replication_lag n > 1 \<Longrightarrow> \<forall>k. stays_above (p k) \<Longrightarrow>
   length (catchup_loop n w p) = (max_wait + 1 - w) div 2 \<and>
   (\<forall>x \<in> set (catchup_loop n w p). replication_lag (fst x) > 1)"
proof (induction n w p rule: catchup_loop.induct)
  case (1 n w p)
  show ?case
  proof (cases "w < max_wait")
    case True
    have lag': "replication_lag (fst (get_replication_lag n (p 0))) > 1"
      using "1.prems" by (simp add: remeasure_stays_above)
    have later: "\<forall>k. stays_above (p (Suc k))" using "1.prems" by simp
    have cond: "replication_lag n > 1 \<and> w < max_wait" using True "1.prems" by simp
    show ?thesis
      using "1.IH" [OF cond refl refl lag' later] True "1.prems"(1) lag'
      by (simp add: catchup_loop_continue)
  next
    case False
    then show ?thesis by (simp add: catchup_loop_stop max_wait_def)
  qed
qed

lemma remeasure_keeps_connection:
  "connection (fst (get_replication_lag n q)) = connection n"
  by (simp add: get_replication_lag_def Let_def split: option.splits lag_query.splits)

lemma catchup_loop_connection:
  "x \<in> set (catchup_loop n w p) \<Longrightarrow> connection (fst x) = connection n"
proof (induction n w p rule: catchup_loop.induct)
  case (1 n w p)
  show ?case
  proof (cases "replication_lag n > 1 \<and> w < max_wait")
    case True
    then show ?thesis
      using "1.IH" [OF True refl refl] "1.prems"
      by (auto simp: catchup_loop_continue remeasure_keeps_connection)
  next
    case False
    then show ?thesis using "1.prems" by (simp add: catchup_loop_stop)
  qed
qed

subsection \<open>The shape of a run\<close>

lemma promote_steps_failed:
  "\<not> snd (promote_to_primary (nodes s ! c) ok) \<Longrightarrow>
   promote_steps s c w ok = [(PromoteFailed c, s), (FailoverFailed, s)]"
  by (simp add: promote_steps_def promote_to_primary_def Let_def split: option.splits if_splits)

lemma promote_steps_succeeded:
  "snd (promote_to_primary (nodes s ! c) ok) \<Longrightarrow>
   promote_steps s c w ok =
     (let xs = (nodes s)[c := (nodes s ! c)\<lparr>is_primary := True\<rparr>];
          s3 = (case primary_node s of
                  None \<Rightarrow> s\<lparr>nodes := xs, primary_node := Some c\<rparr>
                | Some p \<Rightarrow> s\<lparr>nodes := xs[p := (xs ! p)\<lparr>is_primary := False\<rparr>],
                              primary_node := Some c\<rparr>)
      in [(Promoted c, s\<lparr>nodes := xs\<rparr>),
          (PrimaryReassigned c, s\<lparr>nodes := xs, primary_node := Some c\<rparr>)] @
         (case primary_node s of None \<Rightarrow> [] | Some p \<Rightarrow> [(OldPrimaryDemoted p, s3)]) @
         [(FailoverComplete c w (replication_lag (nodes s3 ! c)), s3)])"
  by (simp add: promote_steps_def promote_to_primary_def Let_def split: option.splits if_splits)

lemma promote_steps_candidate_lag:
  "c < length (nodes s) \<Longrightarrow> x \<in> set (promote_steps s c w ok) \<Longrightarrow>
   replication_lag (nodes (snd x) ! c) = replication_lag (nodes s ! c)"
  by (auto simp: promote_steps_def promote_to_primary_def Let_def nth_list_update
      split: prod.splits option.splits if_splits)

lemma promote_steps_nonempty: "promote_steps s c w ok \<noteq> []"
  by (simp add: promote_steps_def Let_def split: prod.splits)

lemma promote_steps_no_remeasure:
  "filter (\<lambda>x. is_remeasured (fst x)) (promote_steps s c w ok) = []"
  by (cases "snd (promote_to_primary (nodes s ! c) ok)")
     (simp_all add: promote_steps_failed promote_steps_succeeded Let_def split: option.splits)

lemma promote_steps_no_abort:
  "NoHealthyStandby \<notin> set (map fst (promote_steps s c w ok))"
  by (cases "snd (promote_to_primary (nodes s ! c) ok)")
     (simp_all add: promote_steps_failed promote_steps_succeeded Let_def split: option.splits)

lemma promote_steps_invoked:
  "Promoted c \<in> set (map fst (promote_steps s c w ok)) \<or>
   PromoteFailed c \<in> set (map fst (promote_steps s c w ok))"
  by (cases "snd (promote_to_primary (nodes s ! c) ok)")
     (simp_all add: promote_steps_failed promote_steps_succeeded Let_def)

lemma trigger_failover_steps_unfold:
  assumes "\<not> failover_in_progress s" and "standbys s \<noteq> []"
  shows "trigger_failover_steps s probes promote_ok =
     (let s1 = s\<lparr>failover_in_progress := True\<rparr>;
          c = hd (sorted_standbys s);
          iters = catchup_loop (nodes s ! c) 0 probes;
          s2 = s1\<lparr>nodes := (nodes s)[c := fst (last ((nodes s ! c, 0) # iters))]\<rparr>;
          psteps = promote_steps s2 c (2 * length iters) promote_ok
      in [(Initiated, s1), (Selected c (replication_lag (nodes s ! c)), s1)] @
         map (\<lambda>x. (Remeasured (snd x), s1\<lparr>nodes := (nodes s)[c := fst x]\<rparr>)) iters @
         psteps @
         [(Cleared, snd (last psteps)\<lparr>failover_in_progress := False\<rparr>)])"
proof -
  have w: "snd (last ((nodes s ! c, 0) # catchup_loop (nodes s ! c) 0 probes)) =
             2 * length (catchup_loop (nodes s ! c) 0 probes)" for c
    using catchup_loop_waited [of "nodes s ! c" 0 probes] by simp
  show ?thesis
    using assms w
    by (simp add: trigger_failover_steps_def standbys_flag sorted_standbys_flag Let_def
        case_prod_unfold)
qed

lemma trigger_failover_steps_shape:
  fixes s :: orchestrator and probes :: "nat \<Rightarrow> lag_query" and promote_ok :: bool
  assumes "\<not> failover_in_progress s" and "standbys s \<noteq> []"
  defines "c \<equiv> hd (sorted_standbys s)"
  defines "iters \<equiv> catchup_loop (nodes s ! c) 0 probes"
  defines "s2 \<equiv> s\<lparr>failover_in_progress := True,
                    nodes := (nodes s)[c := fst (last ((nodes s ! c, 0) # iters))]\<rparr>"
  defines "psteps \<equiv> promote_steps s2 c (2 * length iters) promote_ok"
  shows "trigger_failover_steps s probes promote_ok =
      [(Initiated, s\<lparr>failover_in_progress := True\<rparr>),
       (Selected c (replication_lag (nodes s ! c)), s\<lparr>failover_in_progress := True\<rparr>)] @
      map (\<lambda>x. (Remeasured (snd x),
                 s\<lparr>failover_in_progress := True, nodes := (nodes s)[c := fst x]\<rparr>)) iters @
      psteps @ [(Cleared, snd (last psteps)\<lparr>failover_in_progress := False\<rparr>)]"
  using assms(1,2)
  by (simp add: trigger_failover_steps_unfold Let_def c_def iters_def s2_def psteps_def)

lemma catchup_iterations_bounded:
  "iterations (trigger_failover_steps s probes promote_ok) \<le> 15"
proof (cases "failover_in_progress s \<or> standbys s = []")
  case True
  then show ?thesis
    by (auto simp: iterations_def trigger_failover_steps_def standbys_flag Let_def)
next
  case False
  have "length (catchup_loop (nodes s ! hd (sorted_standbys s)) 0 probes) \<le> 15"
    using catchup_loop_length_le [of "nodes s ! hd (sorted_standbys s)" 0 probes]
    by (simp add: max_wait_def)
  then show ?thesis
    using False
    by (simp add: iterations_def trigger_failover_steps_shape promote_steps_no_remeasure
        filter_map comp_def)
qed

lemma promote_to_primary_succeeds:
  "snd (promote_to_primary n ok) = (connection n \<noteq> None \<and> ok)"
  by (simp add: promote_to_primary_def split: option.splits)

lemma promote_steps_final_succeeded:
  assumes "connection (nodes s ! c) \<noteq> None" and "ok" and "c < length (nodes s)"
  shows "primary_node (snd (last (promote_steps s c w ok))) = Some c"
    and "primary_node s \<noteq> Some c \<Longrightarrow> is_primary (nodes (snd (last (promote_steps s c w ok))) ! c)"
    and "primary_node s = Some p \<Longrightarrow> p \<noteq> c \<Longrightarrow> p < length (nodes s) \<Longrightarrow>
           \<not> is_primary (nodes (snd (last (promote_steps s c w ok))) ! p)"
    and "fst (last (promote_steps s c w ok)) =
           FailoverComplete c w (replication_lag (nodes (snd (last (promote_steps s c w ok))) ! c))"
proof -
  have ok': "snd (promote_to_primary (nodes s ! c) ok)"
    using assms(1,2) by (simp add: promote_to_primary_succeeds)
  show "primary_node (snd (last (promote_steps s c w ok))) = Some c"
    by (cases "primary_node s") (simp_all add: promote_steps_succeeded [OF ok'] Let_def)
  show "primary_node s \<noteq> Some c \<Longrightarrow> is_primary (nodes (snd (last (promote_steps s c w ok))) ! c)"
    using assms(3)
    by (cases "primary_node s") (auto simp: promote_steps_succeeded [OF ok'] Let_def)
  show "primary_node s = Some p \<Longrightarrow> p \<noteq> c \<Longrightarrow> p < length (nodes s) \<Longrightarrow>
           \<not> is_primary (nodes (snd (last (promote_steps s c w ok))) ! p)"
    by (simp add: promote_steps_succeeded [OF ok'] Let_def)
  show "fst (last (promote_steps s c w ok)) =
           FailoverComplete c w (replication_lag (nodes (snd (last (promote_steps s c w ok))) ! c))"
    by (cases "primary_node s") (simp_all add: promote_steps_succeeded [OF ok'] Let_def)
qed

lemma promote_steps_final_failed:
  assumes "\<not> (connection (nodes s ! c) \<noteq> None \<and> ok)"
  shows "promote_steps s c w ok = [(PromoteFailed c, s), (FailoverFailed, s)]"
  using assms by (intro promote_steps_failed) (simp add: promote_to_primary_succeeds)

lemma trigger_failover_final:
  assumes "\<not> failover_in_progress s" and "standbys s \<noteq> []"
  shows "trigger_failover s probes promote_ok =
     (let c = hd (sorted_standbys s);
          iters = catchup_loop (nodes s ! c) 0 probes;
          s2 = s\<lparr>failover_in_progress := True,
                 nodes := (nodes s)[c := fst (last ((nodes s ! c, 0) # iters))]\<rparr>
      in snd (last (promote_steps s2 c (2 * length iters) promote_ok))
           \<lparr>failover_in_progress := False\<rparr>)"
  by (simp add: trigger_failover_def trigger_failover_steps_shape [OF assms] Let_def)

text \<open>
  C6: when the candidate's lag is above 1 s and stays above it at every re-measurement, the
  loop runs 15 times, \<open>waited\<close> reaches 30, and \<open>promote_to_primary\<close> is then called on the
  candidate, whose lag is still above 1 s; the run does not abort. The call shows in the
  state \<open>trigger_failover\<close> returns: when the candidate has a handle and the promotion
  command succeeds, the candidate is \<open>primary_node\<close> and has the primary role (unless
  \<open>primary_node\<close> already referred to it), the old primary is downgraded, and 30 and the
  remaining lag are logged as RTO and RPO; otherwise the promotion failure is logged and
  roles and \<open>primary_node\<close> are as before.
\<close>

theorem catchup_timeout_still_promotes:
  assumes "\<not> failover_in_progress s" and "standbys s \<noteq> []"
    and "c = hd (sorted_standbys s)"
    and "replication_lag (nodes s ! c) > 1" and "\<forall>k. stays_above (probes k)"
  shows "iterations (trigger_failover_steps s probes promote_ok) = 15 \<and>
         Remeasured 30 \<in> set (map fst (trigger_failover_steps s probes promote_ok)) \<and>
         promote_invoked_on c (trigger_failover_steps s probes promote_ok) \<and>
         NoHealthyStandby \<notin> set (map fst (trigger_failover_steps s probes promote_ok)) \<and>
         (\<forall>x \<in> set (trigger_failover_steps s probes promote_ok).
            replication_lag (nodes (snd x) ! c) > 1) \<and>
         (connection (nodes s ! c) \<noteq> None \<and> promote_ok \<longrightarrow>
            primary_node (trigger_failover s probes promote_ok) = Some c \<and>
            (primary_node s \<noteq> Some c \<longrightarrow>
               is_primary (nodes (trigger_failover s probes promote_ok) ! c)) \<and>
            (\<forall>p. primary_node s = Some p \<and> p \<noteq> c \<and> p < length (nodes s) \<longrightarrow>
               \<not> is_primary (nodes (trigger_failover s probes promote_ok) ! p)) \<and>
            replication_lag (nodes (trigger_failover s probes promote_ok) ! c) > 1 \<and>
            FailoverComplete c 30 (replication_lag (nodes (trigger_failover s probes promote_ok) ! c))
              \<in> set (map fst (trigger_failover_steps s probes promote_ok))) \<and>
         (\<not> (connection (nodes s ! c) \<noteq> None \<and> promote_ok) \<longrightarrow>
            PromoteFailed c \<in> set (map fst (trigger_failover_steps s probes promote_ok)) \<and>
            primary_node (trigger_failover s probes promote_ok) = primary_node s \<and>
            map is_primary (nodes (trigger_failover s probes promote_ok)) = map is_primary (nodes s))"
proof -
  define iters where "iters = catchup_loop (nodes s ! c) 0 probes"
  define cand where "cand = fst (last ((nodes s ! c, 0) # iters))"
  define s2 where "s2 = s\<lparr>failover_in_progress := True, nodes := (nodes s)[c := cand]\<rparr>"
  define psteps where "psteps = promote_steps s2 c (2 * length iters) promote_ok"
  let ?steps = "trigger_failover_steps s probes promote_ok"
  let ?final = "trigger_failover s probes promote_ok"
  have steps: "?steps =
      [(Initiated, s\<lparr>failover_in_progress := True\<rparr>),
       (Selected c (replication_lag (nodes s ! c)), s\<lparr>failover_in_progress := True\<rparr>)] @
      map (\<lambda>x. (Remeasured (snd x),
                 s\<lparr>failover_in_progress := True, nodes := (nodes s)[c := fst x]\<rparr>)) iters @
      psteps @ [(Cleared, snd (last psteps)\<lparr>failover_in_progress := False\<rparr>)]"
    unfolding iters_def s2_def psteps_def cand_def assms(3)
    by (rule trigger_failover_steps_shape [OF assms(1,2)])
  have final: "?final = snd (last psteps)\<lparr>failover_in_progress := False\<rparr>"
    unfolding iters_def s2_def psteps_def cand_def assms(3)
    using trigger_failover_final [OF assms(1,2), of probes promote_ok] by (simp add: Let_def)
  have c_len: "c < length (nodes s)"
    using hd_sorted_standbys_eligible [OF assms(2)] by (simp add: assms(3) eligible_def)
  have standby: "\<not> is_primary (nodes s ! c)"
    using hd_sorted_standbys_eligible [OF assms(2)] by (simp add: assms(3) eligible_def)
  have len: "length iters = 15" and lags: "\<forall>x \<in> set iters. replication_lag (fst x) > 1"
    using catchup_loop_never_caught_up [OF assms(4,5), of 0]
    by (simp_all add: iters_def max_wait_def)
  have ne: "iters \<noteq> []" using len by auto
  have waited: "snd (last iters) = 30"
    using catchup_loop_waited [of "nodes s ! c" 0 probes] ne len by (simp add: iters_def)
  have last_in: "last iters \<in> set iters" using ne by simp
  then have thirty: "Remeasured 30 \<in> set (map fst ?steps)"
    unfolding steps using waited by force
  have count: "iterations ?steps = 15"
    unfolding steps
    by (simp add: iterations_def psteps_def promote_steps_no_remeasure filter_map comp_def len)
  have invoked: "promote_invoked_on c ?steps"
    unfolding steps using promote_steps_invoked [of c s2 "2 * length iters" promote_ok]
    by (auto simp: promote_invoked_on_def psteps_def)
  have no_abort: "NoHealthyStandby \<notin> set (map fst ?steps)"
    unfolding steps using promote_steps_no_abort [of s2 c "2 * length iters" promote_ok]
    by (auto simp: psteps_def)
  have cand_eq: "cand = fst (last iters)" using ne by (simp add: cand_def)
  have cand_lag: "replication_lag cand > 1" using lags last_in by (simp add: cand_eq)
  have cand_conn: "connection cand = connection (nodes s ! c)"
    using catchup_loop_connection [of "last iters" "nodes s ! c" 0 probes] last_in
    by (simp add: cand_eq iters_def)
  have cand_role: "\<not> is_primary cand"
    using catchup_loop_role [of "last iters" "nodes s ! c" 0 probes] last_in standby
    by (simp add: cand_eq iters_def)
  have s2_c: "nodes s2 ! c = cand" using c_len by (simp add: s2_def)
  have c_len2: "c < length (nodes s2)" using c_len by (simp add: s2_def)
  have s2_prim: "primary_node s2 = primary_node s" by (simp add: s2_def)
  have in_p: "replication_lag (nodes (snd x) ! c) > 1" if "x \<in> set psteps" for x
    using promote_steps_candidate_lag [OF c_len2, of x "2 * length iters" promote_ok] that
      cand_lag s2_c by (simp add: psteps_def)
  have last_mem: "last psteps \<in> set psteps"
    by (simp add: psteps_def promote_steps_nonempty)
  then have last_p: "replication_lag (nodes (snd (last psteps)) ! c) > 1"
    by (rule in_p)
  have all: "\<forall>x \<in> set ?steps. replication_lag (nodes (snd x) ! c) > 1"
    unfolding steps using assms(4) lags c_len in_p last_p by auto
  have success: "primary_node ?final = Some c \<and>
      (primary_node s \<noteq> Some c \<longrightarrow> is_primary (nodes ?final ! c)) \<and>
      (\<forall>p. primary_node s = Some p \<and> p \<noteq> c \<and> p < length (nodes s) \<longrightarrow>
         \<not> is_primary (nodes ?final ! p)) \<and>
      replication_lag (nodes ?final ! c) > 1 \<and>
      FailoverComplete c 30 (replication_lag (nodes ?final ! c)) \<in> set (map fst ?steps)"
    if ok: "connection (nodes s ! c) \<noteq> None \<and> promote_ok"
  proof -
    have conn2: "connection (nodes s2 ! c) \<noteq> None" using ok by (simp add: s2_c cand_conn)
    have pok: promote_ok using ok by simp
    note fin = promote_steps_final_succeeded [OF conn2 pok c_len2,
        where w = "2 * length iters", folded psteps_def]
    have a: "primary_node ?final = Some c" using fin(1) by (simp add: final)
    have b: "primary_node s \<noteq> Some c \<longrightarrow> is_primary (nodes ?final ! c)"
      using fin(2) by (simp add: final s2_prim)
    have c': "\<forall>p. primary_node s = Some p \<and> p \<noteq> c \<and> p < length (nodes s) \<longrightarrow>
         \<not> is_primary (nodes ?final ! p)"
      using fin(3) by (simp add: final s2_prim s2_def)
    have d: "replication_lag (nodes ?final ! c) > 1" using last_p by (simp add: final)
    have "fst (last psteps) = FailoverComplete c 30 (replication_lag (nodes ?final ! c))"
      using fin(4) by (simp add: final len)
    then have "FailoverComplete c 30 (replication_lag (nodes ?final ! c)) \<in> fst ` set psteps"
      using last_mem by (metis image_eqI)
    then have e: "FailoverComplete c 30 (replication_lag (nodes ?final ! c)) \<in> set (map fst ?steps)"
      unfolding steps by auto
    show ?thesis using a b c' d e by blast
  qed
  have failure: "PromoteFailed c \<in> set (map fst ?steps) \<and>
      primary_node ?final = primary_node s \<and>
      map is_primary (nodes ?final) = map is_primary (nodes s)"
    if bad: "\<not> (connection (nodes s ! c) \<noteq> None \<and> promote_ok)"
  proof -
    have bad2: "\<not> (connection (nodes s2 ! c) \<noteq> None \<and> promote_ok)"
      using bad by (simp add: s2_c cand_conn)
    have ps: "psteps = [(PromoteFailed c, s2), (FailoverFailed, s2)]"
      unfolding psteps_def by (rule promote_steps_final_failed [OF bad2])
    have a: "PromoteFailed c \<in> set (map fst ?steps)" unfolding steps ps by simp
    have b: "primary_node ?final = primary_node s" by (simp add: final ps s2_def)
    have "map is_primary ((nodes s)[c := cand]) = map is_primary (nodes s)"
      using cand_role standby c_len by (simp add: map_update list_update_same_conv)
    then have c': "map is_primary (nodes ?final) = map is_primary (nodes s)"
      by (simp add: final ps s2_def)
    show ?thesis using a b c' by blast
  qed
  show ?thesis using count thirty invoked no_abort all success failure by blast
qed

theorem catchup_timeout_still_promotes_witness:
  "iterations (trigger_failover_steps lagging_cluster stuck_probe True) = 15 \<and>
   Remeasured 30 \<in> set (map fst (trigger_failover_steps lagging_cluster stuck_probe True)) \<and>
   promote_invoked_on 1 (trigger_failover_steps lagging_cluster stuck_probe True) \<and>
   NoHealthyStandby \<notin> set (map fst (trigger_failover_steps lagging_cluster stuck_probe True)) \<and>
   primary_node (trigger_failover lagging_cluster stuck_probe True) = Some 1 \<and>
   is_primary (nodes (trigger_failover lagging_cluster stuck_probe True) ! 1) \<and>
   \<not> is_primary (nodes (trigger_failover lagging_cluster stuck_probe True) ! 0) \<and>
   replication_lag (nodes (trigger_failover lagging_cluster stuck_probe True) ! 1) > 1 \<and>
   FailoverComplete 1 30
       (replication_lag (nodes (trigger_failover lagging_cluster stuck_probe True) ! 1))
     \<in> set (map fst (trigger_failover_steps lagging_cluster stuck_probe True)) \<and>
   PromoteFailed 1 \<in> set (map fst (trigger_failover_steps lagging_cluster stuck_probe False)) \<and>
   primary_node (trigger_failover lagging_cluster stuck_probe False) = Some 0"
proof -
  have idle: "\<not> failover_in_progress lagging_cluster"
    by (simp add: lagging_cluster_eq)
  have some: "standbys lagging_cluster \<noteq> []"
    by (simp add: lagging_standbys)
  have cand: "1 = hd (sorted_standbys lagging_cluster)"
    by (simp add: sorted_standbys_def lagging_standbys)
  have lag: "replication_lag (nodes lagging_cluster ! 1) > 1"
    by (simp add: lagging_cluster_eq lagging_standby_def)
  have stuck: "\<forall>k. stays_above (stuck_probe k)"
    by (simp add: stuck_probe_def)
  have conn: "connection (nodes lagging_cluster ! 1) \<noteq> None"
    by (simp add: lagging_cluster_eq lagging_standby_def)
  have old: "primary_node lagging_cluster = Some 0" and len: "length (nodes lagging_cluster) = 2"
    by (simp_all add: lagging_cluster_eq)
  note promoted = catchup_timeout_still_promotes [OF idle some cand lag stuck, of True]
  note refused = catchup_timeout_still_promotes [OF idle some cand lag stuck, of False]
  have demoted: "\<not> is_primary (nodes (trigger_failover lagging_cluster stuck_probe True) ! 0)"
    using promoted conn old len by simp
  show ?thesis
    using promoted refused conn old demoted by simp
qed

subsection \<open>The number of primaries\<close>

lemma nth_update_if: "j < length xs \<Longrightarrow> xs[i := x] ! j = (if i = j then x else xs ! j)"
  by (auto simp: nth_list_update)

lemma settled_iff:
  "settled s = (\<forall>i < length (nodes s). is_primary (nodes s ! i) \<longrightarrow> primary_node s = Some i)"
  by (auto simp: settled_def list_all_iff)

lemma count_primaries_le:
  assumes "finite A" and "\<forall>i < length (nodes t). is_primary (nodes t ! i) \<longrightarrow> i \<in> A"
  shows "count_primaries t \<le> card A"
proof -
  have "count_primaries t = card {i. i < length (nodes t) \<and> is_primary (nodes t ! i)}"
    by (simp add: count_primaries_def length_filter_conv_card)
  also have "\<dots> \<le> card A"
    using assms by (intro card_mono) auto
  finally show ?thesis .
qed

lemma settled_count: "settled s \<Longrightarrow> count_primaries s \<le> 1"
  using count_primaries_le [of "set_option (primary_node s)" s]
  by (cases "primary_node s") (auto simp: settled_iff)

lemma count_primaries_nodes: "nodes t = nodes s \<Longrightarrow> count_primaries t = count_primaries s"
  by (simp add: count_primaries_def)

lemma primaries_after_promotion:
  assumes "settled s" and "nodes t = (nodes s)[c := (nodes s ! c)\<lparr>is_primary := True\<rparr>]"
    and "i < length (nodes t)" and "is_primary (nodes t ! i)"
  shows "i = c \<or> primary_node s = Some i"
proof (cases "i = c")
  case False
  then have "nodes t ! i = nodes s ! i" using assms(2) by simp
  then show ?thesis using assms by (simp add: settled_iff)
qed simp

lemma primaries_after_demotion:
  assumes "settled s" and "primary_node s = Some p"
    and "nodes t = ((nodes s)[c := (nodes s ! c)\<lparr>is_primary := True\<rparr>])
                     [p := ((nodes s)[c := (nodes s ! c)\<lparr>is_primary := True\<rparr>] ! p)
                             \<lparr>is_primary := False\<rparr>]"
    and "i < length (nodes t)" and "is_primary (nodes t ! i)"
  shows "i = c"
proof (rule ccontr)
  assume "i \<noteq> c"
  have "i \<noteq> p" using assms(3,4,5) by auto
  then have "nodes t ! i = nodes s ! i" using assms(3) \<open>i \<noteq> c\<close> by simp
  then have "primary_node s = Some i" using assms(1,3,4,5) by (simp add: settled_iff)
  then show False using assms(2) \<open>i \<noteq> p\<close> by simp
qed

lemma promote_steps_primaries:
  assumes "settled s" and "(l, t) \<in> set (promote_steps s c w ok)"
  shows "count_primaries t \<le> (if promotion_window l then 2 else 1)"
proof (cases "snd (promote_to_primary (nodes s ! c) ok)")
  case False
  then show ?thesis
    using assms settled_count [of s] by (auto simp: promote_steps_failed)
next
  case True
  let ?xs = "(nodes s)[c := (nodes s ! c)\<lparr>is_primary := True\<rparr>]"
  have window: "count_primaries t \<le> 2" if "nodes t = ?xs"
  proof -
    have "count_primaries t \<le> card (insert c (set_option (primary_node s)))"
      using primaries_after_promotion [OF assms(1) that]
      by (intro count_primaries_le) auto
    also have "\<dots> \<le> 2"
      by (cases "primary_node s") (simp_all add: card_insert_if)
    finally show ?thesis .
  qed
  have fresh: "count_primaries t \<le> 1" if "primary_node s = None" "nodes t = ?xs"
  proof -
    have "count_primaries t \<le> card {c}"
      using primaries_after_promotion [OF assms(1) that(2)] that(1)
      by (intro count_primaries_le) auto
    then show ?thesis by simp
  qed
  have demoted: "count_primaries t \<le> 1"
    if "primary_node s = Some p" "nodes t = ?xs[p := (?xs ! p)\<lparr>is_primary := False\<rparr>]" for p
  proof -
    have "count_primaries t \<le> card {c}"
      using primaries_after_demotion [OF assms(1) that]
      by (intro count_primaries_le) auto
    then show ?thesis by simp
  qed
  show ?thesis
  proof (cases "primary_node s")
    case None
    then show ?thesis
      using assms(2) window fresh by (auto simp: promote_steps_succeeded [OF True] Let_def)
  next
    case (Some p)
    then show ?thesis
      using assms(2) window demoted [of p]
      by (auto simp: promote_steps_succeeded [OF True] Let_def)
  qed
qed

lemma remeasured_settled:
  assumes "settled s" and "c < length (nodes s)" and "is_primary n = is_primary (nodes s ! c)"
  shows "settled (s\<lparr>failover_in_progress := b, nodes := (nodes s)[c := n]\<rparr>)"
  using assms by (auto simp: settled_iff nth_update_if)

text \<open>
  C2, as stated, fails: in the example failover the state right after the promotion of
  \<open>S1\<close> has two primaries, \<open>P\<close> and \<open>S1\<close>.
\<close>

theorem promotion_makes_two_primaries:
  "fst (trigger_failover_steps ex_cluster no_probe True ! 2) = Promoted 1 \<and>
   count_primaries (snd (trigger_failover_steps ex_cluster no_probe True ! 2)) = 2"
  apply (simp add: trigger_failover_steps_def ex_standbys ex_candidate Let_def)
  apply (simp add: ex_cluster_eq catchup_loop_caught_up ex_standby1_def new_node_def)
  apply (simp add: Let_def promote_steps_def promote_to_primary_def count_primaries_def
      ex_primary_def ex_standby2_def new_node_def)
  done

text \<open>
  C2, amended: in a failover entered in a settled state, at most two nodes are primary at
  every step, and at most one at every step outside the window between the candidate's
  promotion and the downgrade of the old primary.
\<close>

theorem failover_primaries_bounded:
  assumes "settled s" and "(l, t) \<in> set (trigger_failover_steps s probes promote_ok)"
  shows "count_primaries t \<le> (if promotion_window l then 2 else 1)"
proof (cases "failover_in_progress s \<or> standbys s = []")
  case True
  then have "nodes t = nodes s \<and> \<not> promotion_window l"
    using assms(2)
    by (auto simp: trigger_failover_steps_def standbys_flag Let_def split: if_splits)
  then show ?thesis
    using settled_count [OF assms(1)] count_primaries_nodes [of t s] by simp
next
  case False
  define c where "c = hd (sorted_standbys s)"
  define iters where "iters = catchup_loop (nodes s ! c) 0 probes"
  define s2 where "s2 = s\<lparr>failover_in_progress := True,
                          nodes := (nodes s)[c := fst (last ((nodes s ! c, 0) # iters))]\<rparr>"
  define psteps where "psteps = promote_steps s2 c (2 * length iters) promote_ok"
  have el: "eligible s c"
    using False by (simp add: c_def hd_sorted_standbys_eligible)
  have role: "is_primary (fst x) = is_primary (nodes s ! c)" if "x \<in> set ((nodes s ! c, 0) # iters)" for x
    using that catchup_loop_role [of x "nodes s ! c" 0 probes] by (auto simp: iters_def)
  have "last ((nodes s ! c, 0) # iters) \<in> set ((nodes s ! c, 0) # iters)"
    by (rule last_in_set) simp
  then have "settled s2"
    unfolding s2_def using el role by (intro remeasured_settled assms(1)) (auto simp: eligible_def)
  then have promo: "count_primaries t' \<le> (if promotion_window l' then 2 else 1)"
    if "(l', t') \<in> set psteps" for l' t'
    using that promote_steps_primaries unfolding psteps_def by blast
  have last_p: "last psteps \<in> set psteps"
    by (simp add: psteps_def promote_steps_nonempty)
  have steps: "trigger_failover_steps s probes promote_ok =
      [(Initiated, s\<lparr>failover_in_progress := True\<rparr>),
       (Selected c (replication_lag (nodes s ! c)), s\<lparr>failover_in_progress := True\<rparr>)] @
      map (\<lambda>x. (Remeasured (snd x), s\<lparr>failover_in_progress := True, nodes := (nodes s)[c := fst x]\<rparr>)) iters @
      psteps @ [(Cleared, snd (last psteps)\<lparr>failover_in_progress := False\<rparr>)]"
    using False
    by (simp add: trigger_failover_steps_unfold Let_def c_def iters_def s2_def psteps_def)
  from assms(2) consider
      (start) "nodes t = nodes s" "\<not> promotion_window l"
    | (wait) x where "x \<in> set iters" "l = Remeasured (snd x)"
        "t = s\<lparr>failover_in_progress := True, nodes := (nodes s)[c := fst x]\<rparr>"
    | (promote) "(l, t) \<in> set psteps"
    | (cleared) "l = Cleared" "nodes t = nodes (snd (last psteps))"
    unfolding steps by auto
  then show ?thesis
  proof cases
    case start
    then show ?thesis using settled_count [OF assms(1)] count_primaries_nodes [of t s] by simp
  next
    case wait
    have "settled t"
      unfolding wait(3) using el role wait(1)
      by (intro remeasured_settled assms(1)) (auto simp: eligible_def)
    then show ?thesis using settled_count wait(2) by simp
  next
    case promote
    then show ?thesis by (rule promo)
  next
    case cleared
    obtain l' t' where lt: "last psteps = (l', t')" by (cases "last psteps")
    have "\<not> promotion_window l'"
      using lt by (cases "snd (promote_to_primary (nodes s2 ! c) promote_ok)")
        (auto simp: psteps_def promote_steps_failed promote_steps_succeeded Let_def)
    then have "count_primaries t' \<le> 1"
      using promo [of l' t'] last_p lt by simp
    then show ?thesis
      using cleared lt by (simp add: count_primaries_def)
  qed
qed

theorem failover_primaries_bounded_witness:
  "count_primaries (snd (trigger_failover_steps ex_cluster no_probe True ! 2)) \<le> 2 \<and>
   count_primaries (snd (trigger_failover_steps ex_cluster no_probe True ! 6)) \<le> 1"
proof -
  let ?steps = "trigger_failover_steps ex_cluster no_probe True"
  have len: "length ?steps = 7"
    using arg_cong [OF ex_steps_labels, of length] by simp
  have l2: "fst (?steps ! 2) = Promoted 1" and l6: "fst (?steps ! 6) = Cleared"
    using arg_cong [OF ex_steps_labels, of "\<lambda>xs. xs ! 2"]
          arg_cong [OF ex_steps_labels, of "\<lambda>xs. xs ! 6"] len
    by simp_all
  have m2: "(fst (?steps ! 2), snd (?steps ! 2)) \<in> set ?steps"
    and m6: "(fst (?steps ! 6), snd (?steps ! 6)) \<in> set ?steps"
    using len by simp_all
  show ?thesis
    using failover_primaries_bounded [OF ex_settled m2] failover_primaries_bounded [OF ex_settled m6]
    by (simp add: l2 l6)
qed

end
